theory Spec2Isabelle
  imports Complex_Main "HOL-Library.Product_Lexorder"
begin

section \<open>Values of the JavaScript side\<close>

text \<open>
  The request body is what \<^verbatim>\<open>express.json\<close> hands to the handler: a JSON value.
  A property that is absent reads as \<^verbatim>\<open>undefined\<close>, written \<open>None\<close>.
\<close>

datatype json =
    JNull
  | JBool bool
  | JNum real
  | JStr string
  | JArr "json list"
  | JObj "(string \<times> json) list"

text \<open>\<^verbatim>\<open>!x\<close> is \<open>\<not> truthy x\<close>: undefined, null, false, 0 and the empty string are falsy.\<close>

fun truthy :: "json option \<Rightarrow> bool" where
  "truthy None = False"
| "truthy (Some JNull) = False"
| "truthy (Some (JBool b)) = b"
| "truthy (Some (JNum x)) = (x \<noteq> 0)"
| "truthy (Some (JStr s)) = (s \<noteq> [])"
| "truthy (Some (JArr xs)) = True"
| "truthy (Some (JObj kvs)) = True"

text \<open>\<^verbatim>\<open>Array.isArray\<close>.\<close>

fun isArray :: "json option \<Rightarrow> bool" where
  "isArray (Some (JArr xs)) = True"
| "isArray v = False"

text \<open>The elements of a value that passed \<^verbatim>\<open>Array.isArray\<close>.\<close>

fun array_items :: "json option \<Rightarrow> json list" where
  "array_items (Some (JArr xs)) = xs"
| "array_items v = []"

text \<open>
  The destructured body of \<^verbatim>\<open>POST /api/v1/meter-readings\<close>:
  \<^verbatim>\<open>const { meter_id, location, timestamp, sequence, device_info, readings } = req.body\<close>.
\<close>

record payload =
  meter_id :: "json option"
  location :: "json option"
  timestamp :: "json option"
  sequence :: "json option"
  device_info :: "json option"
  readings :: "json option"

text \<open>
  Everything the \<^verbatim>\<open>try\<close> blocks catch: a rejected statement of the store, or the
  \<^verbatim>\<open>TypeError\<close> of reading a property of \<^verbatim>\<open>null\<close>.
\<close>

datatype failure = StoreError | TypeError

text \<open>
  Reading one of the five properties \<^verbatim>\<open>obis_code\<close>, \<^verbatim>\<open>description\<close>, \<^verbatim>\<open>value\<close>,
  \<^verbatim>\<open>unit\<close>, \<^verbatim>\<open>scaler\<close> of an element of \<^verbatim>\<open>readings\<close> that is not \<^verbatim>\<open>null\<close>: on
  an object the last binding of the key counts (as \<^verbatim>\<open>JSON.parse\<close> builds it); numbers,
  booleans, strings and arrays have none of the five properties.
\<close>

fun reading_prop :: "json \<Rightarrow> string \<Rightarrow> json option" where
  "reading_prop (JObj kvs) k = map_of (rev kvs) k"
| "reading_prop j k = None"

text \<open>An HTTP response: the success body's payload, or a status code with its message.\<close>

datatype 'a response = Success 'a | Failure nat string

section \<open>The platform\<close>

text \<open>
  What the handlers call and the repository does not contain is a parameter of the
  model: the two JSON built-ins and the coercion the database applies when a bound
  JavaScript value is written into a column of a given type (\<open>None\<close>: the statement is
  rejected). \<open>as_varchar n\<close> is the coercion into a character column of capacity \<open>n\<close>.
\<close>

record platform =
  json_stringify :: "json \<Rightarrow> string"
  json_parse :: "string \<Rightarrow> json option"
  as_varchar :: "nat \<Rightarrow> json \<Rightarrow> string option"
  as_datetime :: "json \<Rightarrow> int option"
  as_int :: "json \<Rightarrow> int option"
  as_double :: "json \<Rightarrow> real option"

text \<open>
  A bound parameter: \<^verbatim>\<open>undefined\<close> and \<^verbatim>\<open>null\<close> are sent as SQL \<^verbatim>\<open>NULL\<close>, any other
  value goes through the column's coercion. The outer \<open>option\<close> is the statement being
  accepted, the inner one is \<^verbatim>\<open>NULL\<close>.
\<close>

definition bind_col :: "(json \<Rightarrow> 'a option) \<Rightarrow> json option \<Rightarrow> 'a option option" where
  "bind_col conv v =
     (case v of
        None \<Rightarrow> Some None
      | Some JNull \<Rightarrow> Some None
      | Some j \<Rightarrow> (case conv j of None \<Rightarrow> None | Some a \<Rightarrow> Some (Some a)))"

text \<open>A \<^verbatim>\<open>NOT NULL\<close> column rejects \<^verbatim>\<open>NULL\<close>.\<close>

definition not_null :: "'a option option \<Rightarrow> 'a option" where
  "not_null c = (case c of Some (Some a) \<Rightarrow> Some a | _ \<Rightarrow> None)"

section \<open>The store\<close>

text \<open>
  The two tables of \<^verbatim>\<open>initializeDatabase\<close>. Times are integers (milliseconds, as a
  JavaScript \<^verbatim>\<open>Date\<close> counts them); a \<^verbatim>\<open>DATETIME\<close> is a point of the same line. The
  surrogate key of \<^verbatim>\<open>meters\<close> is left out: no statement reads it.
\<close>

record meter_row =
  m_meter_id :: string
  m_location :: "string option"
  m_device_info :: "string option"
  m_first_seen :: int
  m_last_seen :: int

record reading_row =
  r_id :: nat
  r_meter_id :: string
  r_timestamp :: int
  r_sequence_number :: "int option"
  r_obis_code :: string
  r_description :: "string option"
  r_value :: real
  r_unit :: "string option"
  r_scaler :: "int option"
  r_received_at :: int

text \<open>
  \<open>reachable\<close> is whether the pool obtains a connection and statements are answered
  (when it is false, \<^verbatim>\<open>getConnection\<close> and \<^verbatim>\<open>query\<close> throw); \<open>next_reading_id\<close> is the
  \<^verbatim>\<open>AUTO_INCREMENT\<close> counter of \<^verbatim>\<open>meter_readings\<close>. Both tables are kept in insertion
  order. The connections themselves are not modelled: a handler that fails does not
  release its connection, and a pool left without connections keeps a request waiting
  instead of answering it.
\<close>

record store =
  reachable :: bool
  meters :: "meter_row list"
  meter_readings :: "reading_row list"
  next_reading_id :: nat

definition empty_store :: store where
  "empty_store = \<lparr>reachable = True, meters = [], meter_readings = [], next_reading_id = 1\<rparr>"

definition find_meter :: "string \<Rightarrow> store \<Rightarrow> meter_row option" where
  "find_meter k s = find (\<lambda>m. m_meter_id m = k) (meters s)"

text \<open>
  \<^verbatim>\<open>INSERT INTO meters (meter_id, location, device_info, last_seen) VALUES (?, ?, ?,
  CURRENT_TIMESTAMP) ON DUPLICATE KEY UPDATE location = VALUES(location), device_info =
  VALUES(device_info), last_seen = CURRENT_TIMESTAMP\<close>
  on the table: \<^verbatim>\<open>meter_id\<close> is the unique key, \<^verbatim>\<open>first_seen\<close> takes its default
  \<^verbatim>\<open>CURRENT_TIMESTAMP\<close> on insertion and is not assigned on update.
\<close>

fun upsert_row ::
  "int \<Rightarrow> string \<Rightarrow> string option \<Rightarrow> string option \<Rightarrow> meter_row list \<Rightarrow> meter_row list" where
  "upsert_row now k l d [] =
     [\<lparr>m_meter_id = k, m_location = l, m_device_info = d, m_first_seen = now, m_last_seen = now\<rparr>]"
| "upsert_row now k l d (m # ms) =
     (if m_meter_id m = k
      then m\<lparr>m_location := l, m_device_info := d, m_last_seen := now\<rparr> # ms
      else m # upsert_row now k l d ms)"

text \<open>
  The statement with its bound parameters \<^verbatim>\<open>[meter_id, location, JSON.stringify(...)]\<close>:
  \<^verbatim>\<open>meter_id VARCHAR(50) NOT NULL\<close>, \<^verbatim>\<open>location VARCHAR(100)\<close>, \<^verbatim>\<open>device_info TEXT\<close>
  (capacity 65535).
\<close>

definition upsert_meter ::
  "platform \<Rightarrow> int \<Rightarrow> json option \<Rightarrow> json option \<Rightarrow> string \<Rightarrow> store \<Rightarrow> failure + store" where
  "upsert_meter E now mid loc dev s =
     (if \<not> reachable s then Inl StoreError
      else case not_null (bind_col (as_varchar E 50) mid) of
        None \<Rightarrow> Inl StoreError
      | Some k \<Rightarrow>
         (case bind_col (as_varchar E 100) loc of
            None \<Rightarrow> Inl StoreError
          | Some l \<Rightarrow>
             (case bind_col (as_varchar E 65535) (Some (JStr dev)) of
                None \<Rightarrow> Inl StoreError
              | Some d \<Rightarrow> Inr (s\<lparr>meters := upsert_row now k l d (meters s)\<rparr>))))"

text \<open>
  The row that
  \<^verbatim>\<open>INSERT INTO meter_readings (meter_id, timestamp, sequence_number, obis_code,
  description, value, unit, scaler) VALUES (?, ?, ?, ?, ?, ?, ?, ?)\<close>
  writes for the already evaluated parameters, under the column types and the
  \<^verbatim>\<open>NOT NULL\<close> constraints of the table; \<open>None\<close> when a parameter is rejected.
\<close>

definition new_reading_row ::
  "platform \<Rightarrow> int \<Rightarrow> nat \<Rightarrow> json option \<Rightarrow> json option \<Rightarrow> json option \<Rightarrow>
   json option \<Rightarrow> json option \<Rightarrow> json option \<Rightarrow> json option \<Rightarrow> json option \<Rightarrow> reading_row option" where
  "new_reading_row E now i mid ts sq oc de va un sc =
     Option.bind (not_null (bind_col (as_varchar E 50) mid)) (\<lambda>k.
     Option.bind (not_null (bind_col (as_datetime E) ts)) (\<lambda>t.
     Option.bind (bind_col (as_int E) sq) (\<lambda>n.
     Option.bind (not_null (bind_col (as_varchar E 50) oc)) (\<lambda>c.
     Option.bind (bind_col (as_varchar E 255) de) (\<lambda>d.
     Option.bind (not_null (bind_col (as_double E) va)) (\<lambda>v.
     Option.bind (bind_col (as_varchar E 20) un) (\<lambda>u.
     Option.bind (bind_col (as_int E) sc) (\<lambda>e.
       Some \<lparr>r_id = i, r_meter_id = k, r_timestamp = t, r_sequence_number = n,
             r_obis_code = c, r_description = d, r_value = v, r_unit = u, r_scaler = e,
             r_received_at = now\<rparr>))))))))"

text \<open>
  One turn of the loop \<^verbatim>\<open>for (let r of readings) await conn.query(sql, [...])\<close>: the
  parameter array is evaluated first (reading a property of a \<^verbatim>\<open>null\<close> element
  throws), then the row is appended under the next id. The foreign key requires the
  meter to exist.
\<close>

definition insert_reading ::
  "platform \<Rightarrow> int \<Rightarrow> json option \<Rightarrow> json option \<Rightarrow> json option \<Rightarrow> json \<Rightarrow> store \<Rightarrow> failure + store" where
  "insert_reading E now mid ts sq r s =
     (if r = JNull then Inl TypeError
      else if \<not> reachable s then Inl StoreError
      else case new_reading_row E now (next_reading_id s) mid ts sq
                  (reading_prop r ''obis_code'') (reading_prop r ''description'')
                  (reading_prop r ''value'') (reading_prop r ''unit'')
                  (reading_prop r ''scaler'') of
        None \<Rightarrow> Inl StoreError
      | Some row \<Rightarrow>
         (if find_meter (r_meter_id row) s = None then Inl StoreError
          else Inr (s\<lparr>meter_readings := meter_readings s @ [row],
                      next_reading_id := Suc (next_reading_id s)\<rparr>)))"

text \<open>The loop: it stops at the first failure and leaves the rows written so far.\<close>

fun insert_readings ::
  "platform \<Rightarrow> int \<Rightarrow> json option \<Rightarrow> json option \<Rightarrow> json option \<Rightarrow> json list \<Rightarrow> store
   \<Rightarrow> store \<times> failure option" where
  "insert_readings E now mid ts sq [] s = (s, None)"
| "insert_readings E now mid ts sq (r # rs) s =
     (case insert_reading E now mid ts sq r s of
        Inl e \<Rightarrow> (s, Some e)
      | Inr s' \<Rightarrow> insert_readings E now mid ts sq rs s')"

section \<open>Ingestion: \<^verbatim>\<open>POST /api/v1/meter-readings\<close>\<close>

text \<open>The two guards before the \<^verbatim>\<open>try\<close> block; \<open>None\<close> when both let the request through.\<close>

definition validate :: "payload \<Rightarrow> nat response option" where
  "validate p =
     (if \<not> truthy (meter_id p) \<or> \<not> isArray (readings p)
      then Some (Failure 400 ''Invalid payload'')
      else if length (array_items (readings p)) > 100
      then Some (Failure 400 ''Too many readings (max 100)'')
      else None)"

text \<open>\<^verbatim>\<open>device_info || {}\<close>.\<close>

definition device_info_or_empty :: "json option \<Rightarrow> json" where
  "device_info_or_empty d =
     (case d of None \<Rightarrow> JObj [] | Some j \<Rightarrow> if truthy (Some j) then j else JObj [])"

text \<open>
  The handler, as a function of the database clock \<open>now\<close> (\<^verbatim>\<open>CURRENT_TIMESTAMP\<close>), the
  payload and the store; it returns the response and the store it leaves behind. Every
  exception of the \<^verbatim>\<open>try\<close> block ends in the same response, status 500. The statements
  of one request read the clock at the same time.
\<close>

definition post_meter_readings ::
  "platform \<Rightarrow> int \<Rightarrow> payload \<Rightarrow> store \<Rightarrow> nat response \<times> store" where
  "post_meter_readings E now p s =
     (case validate p of
        Some resp \<Rightarrow> (resp, s)
      | None \<Rightarrow>
         (if \<not> reachable s then (Failure 500 ''DB error'', s)
          else case upsert_meter E now (meter_id p) (location p)
                      (json_stringify E (device_info_or_empty (device_info p))) s of
            Inl e \<Rightarrow> (Failure 500 ''DB error'', s)
          | Inr s1 \<Rightarrow>
             (case insert_readings E now (meter_id p) (timestamp p) (sequence p)
                     (array_items (readings p)) s1 of
                (s2, Some e) \<Rightarrow> (Failure 500 ''DB error'', s2)
              | (s2, None) \<Rightarrow> (Success (length (array_items (readings p))), s2))))"

section \<open>Latest samples: \<^verbatim>\<open>GET /api/v1/meters/:meterId/latest\<close>\<close>

text \<open>\<^verbatim>\<open>ORDER BY timestamp DESC, id DESC\<close>.\<close>

definition latest_first :: "reading_row list \<Rightarrow> reading_row list" where
  "latest_first rows = rev (sort_key (\<lambda>r. (r_timestamp r, r_id r)) rows)"

text \<open>
  \<^verbatim>\<open>SELECT * FROM meter_readings WHERE meter_id=? ORDER BY timestamp DESC, id DESC
  LIMIT ?\<close>. The row count of \<^verbatim>\<open>LIMIT\<close> is an unsigned 64-bit integer constant: the
  statement is rejected for a negative or a larger number.
\<close>

definition query_latest :: "store \<Rightarrow> string \<Rightarrow> int \<Rightarrow> failure + reading_row list" where
  "query_latest s mid n =
     (if \<not> reachable s \<or> n < 0 \<or> n > 18446744073709551615 then Inl StoreError
      else Inr (take (nat n) (latest_first (filter (\<lambda>r. r_meter_id r = mid) (meter_readings s)))))"

text \<open>The objects of the response.\<close>

record reading_view =
  obis_code :: string
  description :: "string option"
  value_of :: real
  unit_of :: "string option"
  scaler :: "int option"

record sample =
  s_timestamp :: int
  s_sequence_number :: "int option"
  s_readings :: "reading_view list"

definition view_of :: "reading_row \<Rightarrow> reading_view" where
  "view_of r = \<lparr>obis_code = r_obis_code r, description = r_description r, value_of = r_value r,
                unit_of = r_unit r, scaler = r_scaler r\<rparr>"

text \<open>
  The body of \<^verbatim>\<open>rows.forEach\<close> on the object \<^verbatim>\<open>out\<close>, kept as the list of its
  entries in insertion order. The key is the row's timestamp (the text of its
  \<^verbatim>\<open>Date\<close>, which is never an integer index, so \<^verbatim>\<open>Object.values\<close> follows insertion
  order; different timestamps are taken to print differently).
\<close>

definition push_row :: "(int \<times> sample) list \<Rightarrow> reading_row \<Rightarrow> (int \<times> sample) list" where
  "push_row out r =
     (let out1 =
        (if map_of out (r_timestamp r) = None
         then out @ [(r_timestamp r,
                \<lparr>s_timestamp = r_timestamp r, s_sequence_number = r_sequence_number r,
                 s_readings = []\<rparr>)]
         else out)
      in map (\<lambda>(k, v). if k = r_timestamp r
                        then (k, v\<lparr>s_readings := s_readings v @ [view_of r]\<rparr>)
                        else (k, v)) out1)"

definition group_by_timestamp :: "reading_row list \<Rightarrow> (int \<times> sample) list" where
  "group_by_timestamp rows = foldl push_row [] rows"

text \<open>\<^verbatim>\<open>xs.slice(0, n)\<close>: a negative \<open>n\<close> counts from the end.\<close>

definition slice0 :: "'a list \<Rightarrow> int \<Rightarrow> 'a list" where
  "slice0 xs n = (if n < 0 then take (nat (int (length xs) + n)) xs else take (nat n) xs)"

text \<open>
  \<^verbatim>\<open>parseInt(req.query.limit) || 1\<close>, from the result of \<^verbatim>\<open>parseInt\<close> (\<open>None\<close> is
  \<^verbatim>\<open>NaN\<close>): \<^verbatim>\<open>NaN\<close> and 0 are falsy. The numbers of the handler are integers here;
  its own arithmetic is exact on them up to \<open>2\<^sup>5\<^sup>3\<close>.
\<close>

definition latest_limit :: "int option \<Rightarrow> int" where
  "latest_limit q = (case q of None \<Rightarrow> 1 | Some n \<Rightarrow> if n = 0 then 1 else n)"

definition get_latest :: "string \<Rightarrow> int option \<Rightarrow> store \<Rightarrow> sample list response \<times> store" where
  "get_latest meterId q s =
     (let limit = latest_limit q in
      case query_latest s meterId (limit * 10) of
        Inl e \<Rightarrow> (Failure 500 ''DB error'', s)
      | Inr rows \<Rightarrow> (Success (slice0 (map snd (group_by_timestamp rows)) limit), s))"

section \<open>Meter listing: \<^verbatim>\<open>GET /api/v1/meters\<close>\<close>





section \<open>Dashboard: \<^verbatim>\<open>GET /api/v1/dashboard/data\<close>\<close>

record daily_row =
  d_date :: int
  d_reading_count :: nat
  d_avg_power :: "real option"

text \<open>\<^verbatim>\<open>DATE(timestamp)\<close>, as the number of the day, and \<^verbatim>\<open>INTERVAL 7 DAY\<close>.\<close>

definition date_of :: "int \<Rightarrow> int" where
  "date_of t = t div 86400000"

definition seven_days :: int where
  "seven_days = 7 * 86400000"

text \<open>
  \<^verbatim>\<open>SELECT DATE(timestamp) AS date, COUNT(*) AS reading_count,
  AVG(CASE WHEN obis_code='1.0.1.7.0.255' THEN value END) AS avg_power
  FROM meter_readings WHERE timestamp >= DATE_SUB(NOW(), INTERVAL 7 DAY)
  GROUP BY DATE(timestamp) ORDER BY date DESC\<close>,
  with \<^verbatim>\<open>NOW()\<close> as the first argument. \<^verbatim>\<open>AVG\<close> skips the \<^verbatim>\<open>NULL\<close> of the \<^verbatim>\<open>CASE\<close>
  and is \<^verbatim>\<open>NULL\<close> when nothing is left; the values are real numbers here and the
  average is their exact mean.
\<close>

definition in_window :: "int \<Rightarrow> reading_row \<Rightarrow> bool" where
  "in_window now r = (r_timestamp r \<ge> now - seven_days)"

definition avg :: "real list \<Rightarrow> real option" where
  "avg xs = (if xs = [] then None else Some (sum_list xs / real (length xs)))"

definition daily_group :: "reading_row list \<Rightarrow> int \<Rightarrow> daily_row" where
  "daily_group rows d =
     (let g = filter (\<lambda>r. date_of (r_timestamp r) = d) rows
      in \<lparr>d_date = d, d_reading_count = length g,
          d_avg_power = avg (map r_value (filter (\<lambda>r. r_obis_code r = ''1.0.1.7.0.255'') g))\<rparr>)"

definition query_daily :: "int \<Rightarrow> store \<Rightarrow> daily_row list" where
  "query_daily now s =
     (let rows = filter (in_window now) (meter_readings s)
      in map (daily_group rows) (rev (sort (remdups (map (\<lambda>r. date_of (r_timestamp r)) rows)))))"

record dashboard =
  meterInfo :: "meter_row list"
  latest :: "reading_row list"
  daily :: "daily_row list"

text \<open>
  The handler: the most recently seen meter (\<^verbatim>\<open>ORDER BY last_seen DESC LIMIT 1\<close>), its
  latest 10 rows (none when there is no meter: \<^verbatim>\<open>meter_id\<close> is bound to \<^verbatim>\<open>null\<close>), and
  the daily aggregate.
\<close>

definition get_dashboard :: "int \<Rightarrow> store \<Rightarrow> dashboard response \<times> store" where
  "get_dashboard now s =
     (if \<not> reachable s then (Failure 500 ''DB error'', s)
      else
        let info = take 1 (rev (sort_key m_last_seen (meters s)));
            rows = (case info of
                      [] \<Rightarrow> Inr []
                    | m # ms \<Rightarrow> query_latest s (m_meter_id m) 10)
        in case rows of
             Inl e \<Rightarrow> (Failure 500 ''DB error'', s)
           | Inr l \<Rightarrow> (Success \<lparr>meterInfo = info, latest = l, daily = query_daily now s\<rparr>, s))"

section \<open>Notions used in the statements\<close>

text \<open>
  The ids of the stored readings lie below the \<^verbatim>\<open>AUTO_INCREMENT\<close> counter and grow in
  insertion order. Both hold of the empty store and are kept by ingestion.
\<close>

definition ids_below :: "store \<Rightarrow> bool" where
  "ids_below s = (\<forall>r\<in>set (meter_readings s). r_id r < next_reading_id s)"

definition ids_ascending :: "store \<Rightarrow> bool" where
  "ids_ascending s = sorted_wrt (\<lambda>a b. r_id a < r_id b) (meter_readings s)"

text \<open>
  What a later query shows of a reading once it is stored: its five properties, each
  through the coercion of its column.
\<close>

definition stored_view :: "platform \<Rightarrow> json \<Rightarrow> reading_view option" where
  "stored_view E r =
     Option.bind (not_null (bind_col (as_varchar E 50) (reading_prop r ''obis_code''))) (\<lambda>c.
     Option.bind (bind_col (as_varchar E 255) (reading_prop r ''description'')) (\<lambda>d.
     Option.bind (not_null (bind_col (as_double E) (reading_prop r ''value''))) (\<lambda>v.
     Option.bind (bind_col (as_varchar E 20) (reading_prop r ''unit'')) (\<lambda>u.
     Option.bind (bind_col (as_int E) (reading_prop r ''scaler'')) (\<lambda>e.
       Some \<lparr>obis_code = c, description = d, value_of = v, unit_of = u, scaler = e\<rparr>)))))"

text \<open>The elements of a list without repetition, each where it occurs first.\<close>

definition first_seen_keys :: "'a list \<Rightarrow> 'a list" where
  "first_seen_keys xs = rev (remdups (rev xs))"

text \<open>
  The logical sample of one timestamp among fetched rows: the sequence number of the
  first such row and the readings of all of them, in the order of the rows.
\<close>

definition group_sample :: "reading_row list \<Rightarrow> int \<Rightarrow> sample" where
  "group_sample rows t =
     (case filter (\<lambda>r. r_timestamp r = t) rows of
        [] \<Rightarrow> \<lparr>s_timestamp = t, s_sequence_number = None, s_readings = []\<rparr>
      | r # g \<Rightarrow> \<lparr>s_timestamp = t, s_sequence_number = r_sequence_number r,
                  s_readings = map view_of (r # g)\<rparr>)"

section \<open>Example requests\<close>

text \<open>
  One instance of the platform, for running the handlers on concrete requests. It is
  exact on the values the examples below send (strings within the capacity of a
  character column, whole numbers for \<^verbatim>\<open>INT\<close>, numbers for \<^verbatim>\<open>DOUBLE\<close>, the two
  datetime literals, the empty object for the JSON built-ins) and refuses every other
  value.
\<close>

definition example_datetime :: "json \<Rightarrow> int option" where
  "example_datetime j =
     (if j = JStr ''2024-01-01 00:00:00'' then Some 1704067200000
      else if j = JStr ''2024-01-02 00:00:00'' then Some 1704153600000
      else None)"

definition example_platform :: platform where
  "example_platform =
     \<lparr>json_stringify = (\<lambda>j. ''{}''),
      json_parse = (\<lambda>s. if s = ''{}'' then Some (JObj []) else None),
      as_varchar = (\<lambda>n j. case j of JStr s \<Rightarrow> if length s \<le> n then Some s else None | _ \<Rightarrow> None),
      as_datetime = example_datetime,
      as_int = (\<lambda>j. case j of JNum x \<Rightarrow> if of_int \<lfloor>x\<rfloor> = x then Some \<lfloor>x\<rfloor> else None | _ \<Rightarrow> None),
      as_double = (\<lambda>j. case j of JNum x \<Rightarrow> Some x | _ \<Rightarrow> None)\<rparr>"

definition reading_100 :: json where
  "reading_100 = JObj [(''obis_code'', JStr ''1.0.1.7.0.255''), (''value'', JNum 100),
                       (''unit'', JStr ''W''), (''scaler'', JNum 0)]"

text \<open>
  Meter M1 reports 100 W, in a sample stamped the first and in one stamped the second of
  January 2024 (the times 1704067200000 and 1704153600000; the days 19723 and 19724).
\<close>

definition sample_day1 :: payload where
  "sample_day1 = \<lparr>meter_id = Some (JStr ''M1''), location = None,
     timestamp = Some (JStr ''2024-01-01 00:00:00''), sequence = Some (JNum 1),
     device_info = None, readings = Some (JArr [reading_100])\<rparr>"

definition sample_day2 :: payload where
  "sample_day2 = \<lparr>meter_id = Some (JStr ''M1''), location = None,
     timestamp = Some (JStr ''2024-01-02 00:00:00''), sequence = Some (JNum 2),
     device_info = None, readings = Some (JArr [reading_100])\<rparr>"

definition meter_M1 :: "int \<Rightarrow> int \<Rightarrow> meter_row" where
  "meter_M1 first_seen last_seen =
     \<lparr>m_meter_id = ''M1'', m_location = None, m_device_info = Some ''{}'',
      m_first_seen = first_seen, m_last_seen = last_seen\<rparr>"

definition row_100 :: "nat \<Rightarrow> int \<Rightarrow> int \<Rightarrow> int \<Rightarrow> reading_row" where
  "row_100 i t n received =
     \<lparr>r_id = i, r_meter_id = ''M1'', r_timestamp = t, r_sequence_number = Some n,
      r_obis_code = ''1.0.1.7.0.255'', r_description = None, r_value = 100,
      r_unit = Some ''W'', r_scaler = Some 0, r_received_at = received\<rparr>"

definition view_100 :: reading_view where
  "view_100 = \<lparr>obis_code = ''1.0.1.7.0.255'', description = None, value_of = 100,
                unit_of = Some ''W'', scaler = Some 0\<rparr>"

text \<open>The store after \<open>sample_day1\<close> was ingested on the first of January.\<close>

definition store_day1 :: store where
  "store_day1 =
     \<lparr>reachable = True, meters = [meter_M1 1704067200000 1704067200000],
      meter_readings = [row_100 1 1704067200000 1 1704067200000], next_reading_id = 2\<rparr>"

text \<open>The store after \<open>sample_day2\<close> was ingested on the second of January.\<close>

definition store_day2 :: store where
  "store_day2 =
     \<lparr>reachable = True, meters = [meter_M1 1704153600000 1704153600000],
      meter_readings = [row_100 1 1704153600000 2 1704153600000], next_reading_id = 2\<rparr>"

text \<open>Both samples, each ingested on its day.\<close>

definition store_day1_day2 :: store where
  "store_day1_day2 =
     \<lparr>reachable = True, meters = [meter_M1 1704067200000 1704153600000],
      meter_readings = [row_100 1 1704067200000 1 1704067200000,
                        row_100 2 1704153600000 2 1704153600000], next_reading_id = 3\<rparr>"

text \<open>
  Both samples, the older one delivered late: \<open>sample_day2\<close> ingested on the second,
  \<open>sample_day1\<close> on the third of January (1704240000000).
\<close>

definition store_day2_day1 :: store where
  "store_day2_day1 =
     \<lparr>reachable = True, meters = [meter_M1 1704153600000 1704240000000],
      meter_readings = [row_100 1 1704153600000 2 1704153600000,
                        row_100 2 1704067200000 1 1704240000000], next_reading_id = 3\<rparr>"

text \<open>
  The sample stamped the second of January, ingested already on the first: the clock of
  the meter is a day ahead of the clock of the database.
\<close>

definition store_ahead :: store where
  "store_ahead =
     \<lparr>reachable = True, meters = [meter_M1 1704067200000 1704067200000],
      meter_readings = [row_100 1 1704153600000 2 1704067200000], next_reading_id = 2\<rparr>"

text \<open>
  A sample of two readings, 100 W and 230 V, stamped the second of January, and the store
  after it was ingested on that day into \<open>store_day1\<close>.
\<close>

definition reading_230 :: json where
  "reading_230 = JObj [(''obis_code'', JStr ''1.0.32.7.0.255''), (''value'', JNum 230),
                       (''unit'', JStr ''V''), (''scaler'', JNum 0)]"

definition sample_two :: payload where
  "sample_two = sample_day2\<lparr>readings := Some (JArr [reading_100, reading_230])\<rparr>"

definition row_230 :: "nat \<Rightarrow> int \<Rightarrow> int \<Rightarrow> int \<Rightarrow> reading_row" where
  "row_230 i t n received =
     \<lparr>r_id = i, r_meter_id = ''M1'', r_timestamp = t, r_sequence_number = Some n,
      r_obis_code = ''1.0.32.7.0.255'', r_description = None, r_value = 230,
      r_unit = Some ''V'', r_scaler = Some 0, r_received_at = received\<rparr>"

definition store_day1_two :: store where
  "store_day1_two =
     \<lparr>reachable = True, meters = [meter_M1 1704067200000 1704153600000],
      meter_readings = [row_100 1 1704067200000 1 1704067200000,
                        row_100 2 1704153600000 2 1704153600000,
                        row_230 3 1704153600000 2 1704153600000], next_reading_id = 4\<rparr>"

section \<open>Auxiliary facts\<close>

lemma example_platform_simps:
  "json_stringify example_platform j = ''{}''"
  "json_parse example_platform ''{}'' = Some (JObj [])"
  "as_varchar example_platform n (JStr s) = (if length s \<le> n then Some s else None)"
  "as_datetime example_platform j = example_datetime j"
  "as_int example_platform (JNum x) = (if of_int \<lfloor>x\<rfloor> = x then Some \<lfloor>x\<rfloor> else None)"
  "as_double example_platform (JNum x) = Some x"
  by (simp_all add: example_platform_def)

lemmas example_defs =
  sample_day1_def sample_day2_def reading_100_def example_platform_simps example_datetime_def
  empty_store_def meter_M1_def row_100_def view_100_def
  store_day1_def store_day2_def store_day1_day2_def store_day2_day1_def store_ahead_def
  reading_230_def sample_two_def row_230_def store_day1_two_def

lemmas store_defs =
  upsert_meter_def insert_reading_def new_reading_row_def bind_col_def not_null_def
  find_meter_def device_info_or_empty_def

lemmas post_defs = post_meter_readings_def validate_def

lemmas query_defs =
  get_latest_def query_latest_def latest_first_def latest_limit_def slice0_def
  group_by_timestamp_def push_row_def view_of_def

lemmas daily_defs =
  query_daily_def daily_group_def in_window_def seven_days_def date_of_def avg_def

lemma truthy_iff:
  "truthy v \<longleftrightarrow> v \<notin> {None, Some JNull, Some (JBool False), Some (JNum 0), Some (JStr [])}"
  by (cases v rule: truthy.cases) auto

lemma isArray_iff: "isArray v \<longleftrightarrow> (\<exists>xs. v = Some (JArr xs))"
  by (cases v rule: isArray.cases) auto

lemma validate_not_Success: "validate p \<noteq> Some (Success n)"
  by (simp add: validate_def)


lemma upsert_meter_Inr:
  assumes "upsert_meter E now mid loc dev s = Inr s1"
  obtains k l d where "not_null (bind_col (as_varchar E 50) mid) = Some k"
    and "bind_col (as_varchar E 100) loc = Some l"
    and "bind_col (as_varchar E 65535) (Some (JStr dev)) = Some d"
    and "s1 = s\<lparr>meters := upsert_row now k l d (meters s)\<rparr>"
  using assms by (auto simp: upsert_meter_def split: if_splits option.splits)



lemma post_Success:
  assumes "post_meter_readings E now p s = (Success n, s')"
  obtains s1 where "validate p = None" and "reachable s"
    and "upsert_meter E now (meter_id p) (location p)
           (json_stringify E (device_info_or_empty (device_info p))) s = Inr s1"
    and "insert_readings E now (meter_id p) (timestamp p) (sequence p)
           (array_items (readings p)) s1 = (s', None)"
    and "n = length (array_items (readings p))"
  using assms validate_not_Success [of p n]
  by (auto simp: post_meter_readings_def split: option.splits if_splits sum.splits prod.splits)

subsection \<open>The rows an ingestion writes\<close>

lemma new_reading_row_Some:
  assumes "new_reading_row E now i mid ts sq (reading_prop r ''obis_code'')
             (reading_prop r ''description'') (reading_prop r ''value'')
             (reading_prop r ''unit'') (reading_prop r ''scaler'') = Some row"
  shows "r_id row = i"
    and "not_null (bind_col (as_varchar E 50) mid) = Some (r_meter_id row)"
    and "not_null (bind_col (as_datetime E) ts) = Some (r_timestamp row)"
    and "bind_col (as_int E) sq = Some (r_sequence_number row)"
    and "stored_view E r = Some (view_of row)"
  using assms
  by (auto simp: new_reading_row_def stored_view_def view_of_def split: Option.bind_splits)

lemma insert_reading_Inr:
  assumes "insert_reading E now mid ts sq r s = Inr s'"
  obtains row where
    "new_reading_row E now (next_reading_id s) mid ts sq (reading_prop r ''obis_code'')
       (reading_prop r ''description'') (reading_prop r ''value'')
       (reading_prop r ''unit'') (reading_prop r ''scaler'') = Some row"
    and "s' = s\<lparr>meter_readings := meter_readings s @ [row],
                 next_reading_id := Suc (next_reading_id s)\<rparr>"
  using assms by (auto simp: insert_reading_def split: if_splits option.splits)

lemma insert_readings_ok:
  assumes "insert_readings E now mid ts sq rs s = (s', None)"
    and "not_null (bind_col (as_varchar E 50) mid) = Some k"
    and "not_null (bind_col (as_datetime E) ts) = Some t"
  shows "\<exists>rows. meter_readings s' = meter_readings s @ rows
      \<and> map r_id rows = [next_reading_id s ..< next_reading_id s + length rs]
      \<and> next_reading_id s' = next_reading_id s + length rs
      \<and> reachable s' = reachable s \<and> meters s' = meters s
      \<and> (\<forall>row\<in>set rows. r_meter_id row = k \<and> r_timestamp row = t
             \<and> bind_col (as_int E) sq = Some (r_sequence_number row))
      \<and> map (stored_view E) rs = map (Some \<circ> view_of) rows"
  using assms(1)
proof (induction rs arbitrary: s)
  case Nil
  then show ?case by simp
next
  case (Cons r rs)
  from Cons.prems obtain s1 where s1: "insert_reading E now mid ts sq r s = Inr s1"
    and rest: "insert_readings E now mid ts sq rs s1 = (s', None)"
    by (auto split: sum.splits)
  from s1 obtain row where row:
    "new_reading_row E now (next_reading_id s) mid ts sq (reading_prop r ''obis_code'')
       (reading_prop r ''description'') (reading_prop r ''value'')
       (reading_prop r ''unit'') (reading_prop r ''scaler'') = Some row"
    and s1_eq: "s1 = s\<lparr>meter_readings := meter_readings s @ [row],
                 next_reading_id := Suc (next_reading_id s)\<rparr>"
    by (rule insert_reading_Inr)
  note facts = new_reading_row_Some [OF row]
  from Cons.IH [OF rest] obtain rows where rows:
    "meter_readings s' = meter_readings s1 @ rows"
    "map r_id rows = [next_reading_id s1 ..< next_reading_id s1 + length rs]"
    "next_reading_id s' = next_reading_id s1 + length rs"
    "reachable s' = reachable s1" "meters s' = meters s1"
    "\<forall>row\<in>set rows. r_meter_id row = k \<and> r_timestamp row = t
             \<and> bind_col (as_int E) sq = Some (r_sequence_number row)"
    "map (stored_view E) rs = map (Some \<circ> view_of) rows"
    by blast
  have "meter_readings s' = meter_readings s @ (row # rows)"
    using rows(1) by (simp add: s1_eq)
  moreover have "map r_id (row # rows) = [next_reading_id s ..< next_reading_id s + length (r # rs)]"
    using rows(2) facts(1) by (simp add: s1_eq upt_rec)
  moreover have "next_reading_id s' = next_reading_id s + length (r # rs)"
    using rows(3) by (simp add: s1_eq)
  moreover have "reachable s' = reachable s \<and> meters s' = meters s"
    using rows(4,5) by (simp add: s1_eq)
  moreover have "\<forall>row\<in>set (row # rows). r_meter_id row = k \<and> r_timestamp row = t
             \<and> bind_col (as_int E) sq = Some (r_sequence_number row)"
    using rows(6) facts(2,3,4) assms(2,3) by simp
  moreover have "map (stored_view E) (r # rs) = map (Some \<circ> view_of) (row # rows)"
    using rows(7) facts(5) by simp
  ultimately show ?case by blast
qed



text \<open>The two facts about ids are invariants of ingestion, whatever its outcome.\<close>

lemma insert_reading_ids:
  assumes "insert_reading E now mid ts sq r s = Inr s'" and "ids_below s" and "ids_ascending s"
  shows "ids_below s' \<and> ids_ascending s'"
proof -
  from assms(1) obtain row where row:
    "new_reading_row E now (next_reading_id s) mid ts sq (reading_prop r ''obis_code'')
       (reading_prop r ''description'') (reading_prop r ''value'')
       (reading_prop r ''unit'') (reading_prop r ''scaler'') = Some row"
    and s': "s' = s\<lparr>meter_readings := meter_readings s @ [row],
                 next_reading_id := Suc (next_reading_id s)\<rparr>"
    by (rule insert_reading_Inr)
  have "r_id row = next_reading_id s"
    by (rule new_reading_row_Some(1) [OF row])
  then show ?thesis
    using assms(2,3) by (auto simp: s' ids_below_def ids_ascending_def sorted_wrt_append less_Suc_eq)
qed

lemma insert_readings_ids:
  assumes "insert_readings E now mid ts sq rs s = (s', e)" and "ids_below s" and "ids_ascending s"
  shows "ids_below s' \<and> ids_ascending s'"
  using assms
proof (induction rs arbitrary: s)
  case Nil
  then show ?case by simp
next
  case (Cons r rs)
  show ?case
  proof (cases "insert_reading E now mid ts sq r s")
    case (Inl err)
    with Cons.prems show ?thesis by simp
  next
    case (Inr s1)
    with Cons.prems have "insert_readings E now mid ts sq rs s1 = (s', e)"
      by simp
    moreover have "ids_below s1 \<and> ids_ascending s1"
      using insert_reading_ids [OF Inr] Cons.prems by simp
    ultimately show ?thesis
      using Cons.IH by blast
  qed
qed

lemma ids_empty_store: "ids_below empty_store \<and> ids_ascending empty_store"
  by (simp add: ids_below_def ids_ascending_def empty_store_def)

lemma ids_post_meter_readings:
  assumes "ids_below s" and "ids_ascending s"
  shows "ids_below (snd (post_meter_readings E now p s))
         \<and> ids_ascending (snd (post_meter_readings E now p s))"
proof (cases "validate p = None \<and> reachable s")
  case False
  then show ?thesis
    using assms by (auto simp: post_meter_readings_def split: option.splits)
next
  case True
  show ?thesis
  proof (cases "upsert_meter E now (meter_id p) (location p)
                  (json_stringify E (device_info_or_empty (device_info p))) s")
    case (Inl err)
    then show ?thesis
      using assms True by (simp add: post_meter_readings_def)
  next
    case (Inr s1)
    then obtain k l d where "s1 = s\<lparr>meters := upsert_row now k l d (meters s)\<rparr>"
      by (rule upsert_meter_Inr)
    then have s1: "ids_below s1" "ids_ascending s1"
      using assms by (simp_all add: ids_below_def ids_ascending_def)
    obtain s2 e where ins: "insert_readings E now (meter_id p) (timestamp p) (sequence p)
                     (array_items (readings p)) s1 = (s2, e)"
      by (cases "insert_readings E now (meter_id p) (timestamp p) (sequence p)
                     (array_items (readings p)) s1")
    have "snd (post_meter_readings E now p s) = s2"
      using True Inr ins by (cases e) (simp_all add: post_meter_readings_def)
    then show ?thesis
      using insert_readings_ids [OF ins s1] by simp
  qed
qed

section \<open>Ingestion\<close>




text \<open>
  Claim C3, as amended. A payload whose readings array has more than 100 elements is
  refused with status 400 and the store is left as it was: no meter is upserted and no
  row is written. The message is that of too many readings when \<^verbatim>\<open>meter_id\<close> is truthy;
  the check of \<^verbatim>\<open>meter_id\<close> comes first, so without it the message is that of an invalid
  payload.
\<close>

theorem too_many_readings_rejected:
  assumes "readings p = Some (JArr rs)" and "length rs > 100"
  shows "post_meter_readings E now p s =
           (if truthy (meter_id p) then Failure 400 ''Too many readings (max 100)''
            else Failure 400 ''Invalid payload'', s)"
  using assms by (simp add: post_meter_readings_def validate_def)

theorem too_many_readings_rejected_witness:
  "post_meter_readings example_platform 1704067200000
     (sample_day1\<lparr>readings := Some (JArr (replicate 101 reading_100))\<rparr>) empty_store
   = (Failure 400 ''Too many readings (max 100)'', empty_store)"
  using too_many_readings_rejected
    [of "sample_day1\<lparr>readings := Some (JArr (replicate 101 reading_100))\<rparr>"
        "replicate 101 reading_100" example_platform 1704067200000 empty_store]
  by (simp add: sample_day1_def)

text \<open>
  The claim as stated fails for 101 readings sent without a \<^verbatim>\<open>meter_id\<close>: the answer is
  the invalid-payload message, not the one of too many readings.
\<close>

theorem too_many_without_meter_id_counterexample:
  "length (replicate 101 reading_100) > 100
   \<and> fst (post_meter_readings example_platform 1704067200000
       \<lparr>meter_id = None, location = None, timestamp = Some (JStr ''2024-01-01 00:00:00''),
        sequence = Some (JNum 1), device_info = None,
        readings = Some (JArr (replicate 101 reading_100))\<rparr> empty_store)
     = Failure 400 ''Invalid payload''
   \<and> Failure 400 ''Invalid payload'' \<noteq> (Failure 400 ''Too many readings (max 100)'' :: nat response)"
  by (simp add: post_meter_readings_def validate_def)

text \<open>
  Claim C4, as amended. The validator answers with the invalid-payload message exactly
  when \<^verbatim>\<open>meter_id\<close> is falsy (absent, \<^verbatim>\<open>null\<close>, \<^verbatim>\<open>false\<close>, 0 or the empty string) or
  \<^verbatim>\<open>readings\<close> is not an array (absent, or present with any other type).
\<close>

theorem validate_invalid_payload_iff:
  "validate p = Some (Failure 400 ''Invalid payload'') \<longleftrightarrow>
     meter_id p \<in> {None, Some JNull, Some (JBool False), Some (JNum 0), Some (JStr [])}
     \<or> (\<forall>xs. readings p \<noteq> Some (JArr xs))"
  unfolding validate_def truthy_iff isArray_iff by simp

theorem validate_invalid_payload_iff_witness:
  "validate (sample_day1\<lparr>meter_id := Some (JNum 0)\<rparr>) = Some (Failure 400 ''Invalid payload'')
   \<and> validate sample_day1 \<noteq> Some (Failure 400 ''Invalid payload'')"
  using validate_invalid_payload_iff [of "sample_day1\<lparr>meter_id := Some (JNum 0)\<rparr>"]
    validate_invalid_payload_iff [of sample_day1]
  by (simp add: sample_day1_def)

text \<open>
  The claim as stated fails when \<^verbatim>\<open>readings\<close> is present but is a single reading object
  instead of an array: \<^verbatim>\<open>meter_id\<close> is a non-empty string, and the invalid-payload branch
  is taken.
\<close>

theorem readings_not_array_counterexample:
  "meter_id (sample_day1\<lparr>readings := Some reading_100\<rparr>) = Some (JStr ''M1'')
   \<and> readings (sample_day1\<lparr>readings := Some reading_100\<rparr>) \<noteq> None
   \<and> validate (sample_day1\<lparr>readings := Some reading_100\<rparr>) = Some (Failure 400 ''Invalid payload'')"
  by (simp add: validate_def sample_day1_def reading_100_def)



section \<open>Meter registry\<close>



section \<open>Liveness\<close>







section \<open>Latest samples\<close>

subsection \<open>The grouping loop\<close>

lemma remdups_snoc: "remdups (ys @ [x]) = remdups (filter (\<lambda>y. y \<noteq> x) ys) @ [x]"
  by (induction ys) auto

lemma first_seen_keys_snoc:
  "first_seen_keys (xs @ [x]) = (if x \<in> set xs then first_seen_keys xs else first_seen_keys xs @ [x])"
  by (simp add: first_seen_keys_def)

lemma first_seen_keys_Cons:
  "first_seen_keys (x # xs) = x # first_seen_keys (filter (\<lambda>y. y \<noteq> x) xs)"
  by (simp add: first_seen_keys_def remdups_snoc rev_filter)

lemma set_first_seen_keys [simp]: "set (first_seen_keys xs) = set xs"
  by (simp add: first_seen_keys_def)

lemma sorted_desc_first_seen_keys:
  fixes xs :: "int list"
  assumes "sorted_wrt (\<lambda>a b. a \<ge> b) xs"
  shows "sorted_wrt (\<lambda>a b. a > b) (first_seen_keys xs)"
proof -
  have "sorted (rev xs)"
    using assms by (simp add: sorted_wrt_rev)
  then have "sorted_wrt (<) (remdups (rev xs))"
    by (simp add: strict_sorted_iff)
  then show ?thesis
    by (simp add: first_seen_keys_def sorted_wrt_rev)
qed

lemma s_timestamp_group_sample [simp]: "s_timestamp (group_sample rows t) = t"
  by (simp add: group_sample_def split: list.splits)

lemma group_sample_other:
  "t \<noteq> r_timestamp r \<Longrightarrow> group_sample (rows @ [r]) t = group_sample rows t"
  by (simp add: group_sample_def)

lemma group_sample_new:
  assumes "\<forall>x\<in>set rows. r_timestamp x \<noteq> r_timestamp r"
  shows "group_sample (rows @ [r]) (r_timestamp r) =
     \<lparr>s_timestamp = r_timestamp r, s_sequence_number = r_sequence_number r,
      s_readings = [view_of r]\<rparr>"
proof -
  have "filter (\<lambda>x. r_timestamp x = r_timestamp r) rows = []"
    using assms by (simp add: filter_empty_conv)
  then show ?thesis
    by (simp add: group_sample_def)
qed

lemma group_sample_more:
  assumes "x \<in> set rows" and "r_timestamp x = r_timestamp r"
  shows "group_sample (rows @ [r]) (r_timestamp r) =
     (group_sample rows (r_timestamp r))
       \<lparr>s_readings := s_readings (group_sample rows (r_timestamp r)) @ [view_of r]\<rparr>"
proof (cases "filter (\<lambda>x. r_timestamp x = r_timestamp r) rows")
  case Nil
  with assms show ?thesis
    by (simp add: filter_empty_conv)
next
  case (Cons r0 g)
  then show ?thesis
    by (simp add: group_sample_def)
qed

lemma group_sample_member:
  assumes "t \<in> r_timestamp ` set rows"
  shows "\<exists>r g. filter (\<lambda>r. r_timestamp r = t) rows = r # g
           \<and> s_sequence_number (group_sample rows t) = r_sequence_number r
           \<and> s_readings (group_sample rows t) = map view_of (r # g)"
proof (cases "filter (\<lambda>r. r_timestamp r = t) rows")
  case Nil
  with assms show ?thesis
    by (auto simp: filter_empty_conv)
next
  case (Cons r g)
  then show ?thesis
    by (simp add: group_sample_def)
qed

lemma map_of_keyed: "map_of (map (\<lambda>t. (t, f t)) ks) t = None \<longleftrightarrow> t \<notin> set ks"
  by (induction ks) auto

text \<open>
  What the loop leaves in \<^verbatim>\<open>out\<close>: one entry for each timestamp, in the order in which
  the timestamps first occur among the rows.
\<close>

lemma group_by_timestamp_eq:
  "group_by_timestamp rows =
     map (\<lambda>t. (t, group_sample rows t)) (first_seen_keys (map r_timestamp rows))"
proof (induction rows rule: rev_induct)
  case Nil
  show ?case by (simp add: group_by_timestamp_def first_seen_keys_def)
next
  case (snoc r rows)
  let ?t = "r_timestamp r"
  let ?ks = "first_seen_keys (map r_timestamp rows)"
  have step: "group_by_timestamp (rows @ [r]) = push_row (map (\<lambda>t. (t, group_sample rows t)) ?ks) r"
    using snoc by (simp add: group_by_timestamp_def)
  show ?case
  proof (cases "\<exists>x\<in>set rows. r_timestamp x = ?t")
    case True
    then obtain x where x: "x \<in> set rows" "r_timestamp x = ?t"
      by blast
    have mem: "?t \<in> set (map r_timestamp rows)"
      using imageI [OF x(1), of r_timestamp] x(2) by simp
    have upd: "(if t = ?t
                then (t, (group_sample rows t)\<lparr>s_readings := s_readings (group_sample rows t) @ [view_of r]\<rparr>)
                else (t, group_sample rows t)) = (t, group_sample (rows @ [r]) t)" for t
      using group_sample_more [OF x] group_sample_other [of t r rows] by auto
    have "push_row (map (\<lambda>t. (t, group_sample rows t)) ?ks) r
            = map (\<lambda>t. (t, group_sample (rows @ [r]) t)) ?ks"
      using mem by (simp add: push_row_def map_of_keyed o_def upd)
    moreover have "first_seen_keys (map r_timestamp (rows @ [r])) = ?ks"
      using mem by (simp add: first_seen_keys_snoc)
    ultimately show ?thesis
      using step by simp
  next
    case False
    then have ne: "\<forall>x\<in>set rows. r_timestamp x \<noteq> ?t"
      by blast
    then have nmem: "?t \<notin> set (map r_timestamp rows)"
      by auto
    have keep: "map (\<lambda>t. if t = ?t
                then (t, (group_sample rows t)\<lparr>s_readings := s_readings (group_sample rows t) @ [view_of r]\<rparr>)
                else (t, group_sample rows t)) ?ks
              = map (\<lambda>t. (t, group_sample (rows @ [r]) t)) ?ks"
    proof (rule map_cong [OF refl])
      fix t assume "t \<in> set ?ks"
      then have "t \<noteq> ?t"
        using ne by auto
      then show "(if t = ?t
                then (t, (group_sample rows t)\<lparr>s_readings := s_readings (group_sample rows t) @ [view_of r]\<rparr>)
                else (t, group_sample rows t)) = (t, group_sample (rows @ [r]) t)"
        by (simp add: group_sample_other)
    qed
    have "push_row (map (\<lambda>t. (t, group_sample rows t)) ?ks) r
            = map (\<lambda>t. (t, group_sample (rows @ [r]) t)) (?ks @ [?t])"
      using nmem by (simp add: push_row_def map_of_keyed o_def keep group_sample_new [OF ne])
    moreover have "first_seen_keys (map r_timestamp (rows @ [r])) = ?ks @ [?t]"
      using nmem by (simp add: first_seen_keys_snoc)
    ultimately show ?thesis
      using step by simp
  qed
qed

subsection \<open>The order of the fetched rows\<close>

lemma latest_first_sorted:
  "sorted_wrt (\<lambda>a b. (r_timestamp b, r_id b) \<le> (r_timestamp a, r_id a)) (latest_first rows)"
proof -
  have "sorted (map (\<lambda>r. (r_timestamp r, r_id r)) (sort_key (\<lambda>r. (r_timestamp r, r_id r)) rows))"
    by (rule sorted_sort_key)
  then show ?thesis
    by (simp add: latest_first_def sorted_wrt_rev sorted_map)
qed

lemma set_latest_first [simp]: "set (latest_first rows) = set rows"
  by (simp add: latest_first_def)

lemma take_top:
  assumes "sorted_wrt P xs" and "x \<in> set (take n xs)" and "y \<in> set xs" and "y \<notin> set (take n xs)"
  shows "P x y"
proof -
  have "y \<in> set (drop n xs)"
    using assms(3,4) by (metis Un_iff append_take_drop_id set_append)
  moreover have "sorted_wrt P (take n xs @ drop n xs)"
    using assms(1) by simp
  ultimately show ?thesis
    using assms(2) unfolding sorted_wrt_append by blast
qed

lemma insort_key_append:
  "\<forall>y\<in>set ys. f x \<le> f y \<Longrightarrow> insort_key f x (zs @ ys) = insort_key f x zs @ ys"
  by (induction zs) (auto simp: insort_is_Cons)

lemma sort_key_append_sorted:
  assumes "sorted (map f ys)" and "\<forall>x\<in>set xs. \<forall>y\<in>set ys. f x \<le> f y"
  shows "sort_key f (xs @ ys) = sort_key f xs @ ys"
  using assms(2)
proof (induction xs)
  case Nil
  then show ?case using assms(1) by (simp add: sort_key_id_if_sorted)
next
  case (Cons x xs)
  then show ?case by (simp add: insort_key_append)
qed

text \<open>Rows appended with a timestamp that is not older and with fresh ids come first.\<close>

lemma latest_first_append_new:
  assumes "\<forall>r\<in>set new. r_timestamp r = t"
    and "map r_id new = [n ..< n + length new]"
    and "\<forall>r\<in>set old. r_timestamp r \<le> t \<and> r_id r < n"
  shows "latest_first (old @ new) = rev new @ latest_first old"
proof -
  let ?key = "\<lambda>r. (r_timestamp r, r_id r)"
  have "map ?key new = map (Pair t) (map r_id new)"
    using assms(1) by simp
  also have "\<dots> = map (Pair t) [n ..< n + length new]"
    by (simp only: assms(2))
  finally have keys: "map ?key new = map (Pair t) [n ..< n + length new]" .
  have "sorted (map (Pair t) [n ..< n + length new])"
    by (simp add: sorted_map sorted_wrt_map)
  then have 1: "sorted (map ?key new)"
    by (simp only: keys)
  have ids: "\<forall>r\<in>set new. n \<le> r_id r"
  proof
    fix r assume "r \<in> set new"
    then have "r_id r \<in> set (map r_id new)" by simp
    then show "n \<le> r_id r" by (simp only: assms(2)) simp
  qed
  have 2: "\<forall>x\<in>set old. \<forall>y\<in>set new. ?key x \<le> ?key y"
    using assms(1,3) ids by fastforce
  show ?thesis
    unfolding latest_first_def using sort_key_append_sorted [OF 1 2] by simp
qed

subsection \<open>The query\<close>

text \<open>
  Claim C7. For a meter id without stored reading rows (registered or not), a reachable
  store and a positive sample count within the range of \<^verbatim>\<open>LIMIT\<close>, the latest-samples
  query answers with success and an empty array, and leaves the store as it was.
\<close>

theorem latest_without_rows_is_empty:
  assumes "reachable s"
    and "0 < latest_limit q" and "latest_limit q * 10 \<le> 18446744073709551615"
    and "\<forall>r\<in>set (meter_readings s). r_meter_id r \<noteq> mid"
  shows "get_latest mid q s = (Success [], s)"
proof -
  have "filter (\<lambda>r. r_meter_id r = mid) (meter_readings s) = []"
    using assms(4) by (simp add: filter_empty_conv)
  then have "query_latest s mid (latest_limit q * 10) = Inr []"
    using assms(1,2,3) by (simp add: query_latest_def latest_first_def)
  then show ?thesis
    using assms(2) by (simp add: get_latest_def group_by_timestamp_def slice0_def Let_def)
qed

theorem latest_without_rows_is_empty_witness:
  "get_latest ''NON_EXISTENT'' None store_day1 = (Success [], store_day1)"
  using latest_without_rows_is_empty [of store_day1 None "''NON_EXISTENT''"]
  by (simp add: latest_limit_def store_day1_def row_100_def)

text \<open>
  Claim C6. For a reachable store and a positive sample count \<open>limit\<close> (within the range
  of \<^verbatim>\<open>LIMIT\<close>), the query fetches at most \<open>limit * 10\<close> rows of the meter, ordered by
  timestamp descending and then id descending (the id grows with insertion, see
  \<open>ids_post_meter_readings\<close>), and no row left out comes before a fetched one in that
  order. It answers with at most \<open>limit\<close> samples, in strictly descending order of
  timestamp; each sample holds the fetched rows of its timestamp, in their order, with
  the sequence number of the first of them; and the samples are those of the most recent
  timestamps among the fetched rows. The store is left as it was.
\<close>

theorem latest_samples:
  assumes "reachable s"
    and "0 < latest_limit q" and "latest_limit q * 10 \<le> 18446744073709551615"
  shows "\<exists>rows data.
      query_latest s mid (latest_limit q * 10) = Inr rows
    \<and> get_latest mid q s = (Success data, s)
    \<and> length rows \<le> nat (latest_limit q * 10)
    \<and> set rows \<subseteq> {r \<in> set (meter_readings s). r_meter_id r = mid}
    \<and> sorted_wrt (\<lambda>a b. r_timestamp b < r_timestamp a
                        \<or> (r_timestamp b = r_timestamp a \<and> r_id b \<le> r_id a)) rows
    \<and> (\<forall>r\<in>set rows. \<forall>r'\<in>set (meter_readings s). r_meter_id r' = mid \<and> r' \<notin> set rows \<longrightarrow>
          r_timestamp r' < r_timestamp r \<or> (r_timestamp r' = r_timestamp r \<and> r_id r' \<le> r_id r))
    \<and> length data \<le> nat (latest_limit q)
    \<and> sorted_wrt (\<lambda>a b. s_timestamp b < s_timestamp a) data
    \<and> (\<forall>smp\<in>set data. \<exists>r g.
          filter (\<lambda>r. r_timestamp r = s_timestamp smp) rows = r # g
          \<and> s_sequence_number smp = r_sequence_number r
          \<and> s_readings smp = map view_of (r # g))
    \<and> (\<forall>r\<in>set rows. r_timestamp r \<in> s_timestamp ` set data
          \<or> (length data = nat (latest_limit q)
              \<and> (\<forall>smp\<in>set data. r_timestamp r < s_timestamp smp)))"
proof -
  let ?lim = "latest_limit q"
  let ?ord = "\<lambda>a b. r_timestamp b < r_timestamp a \<or> (r_timestamp b = r_timestamp a \<and> r_id b \<le> r_id a)"
  define F where "F = filter (\<lambda>r. r_meter_id r = mid) (meter_readings s)"
  define rows where "rows = take (nat (?lim * 10)) (latest_first F)"
  define ks where "ks = first_seen_keys (map r_timestamp rows)"
  define data where "data = take (nat ?lim) (map (group_sample rows) ks)"
  have q: "query_latest s mid (?lim * 10) = Inr rows"
    using assms by (simp add: query_latest_def rows_def F_def)
  have g: "get_latest mid q s = (Success data, s)"
    using assms(2) q
    by (simp add: get_latest_def Let_def slice0_def group_by_timestamp_eq data_def ks_def o_def)
  have len: "length rows \<le> nat (?lim * 10)"
    by (simp add: rows_def)
  have sub: "set rows \<subseteq> {r \<in> set (meter_readings s). r_meter_id r = mid}"
  proof -
    have "set rows \<subseteq> set (latest_first F)"
      unfolding rows_def by (rule set_take_subset)
    then show ?thesis
      by (auto simp: F_def)
  qed
  have sortedF: "sorted_wrt ?ord (latest_first F)"
    by (rule sorted_wrt_mono_rel [OF _ latest_first_sorted [of F]]) auto
  then have srt: "sorted_wrt ?ord rows"
    by (simp add: rows_def)
  have top: "\<forall>r\<in>set rows. \<forall>r'\<in>set (meter_readings s). r_meter_id r' = mid \<and> r' \<notin> set rows \<longrightarrow>
          r_timestamp r' < r_timestamp r \<or> (r_timestamp r' = r_timestamp r \<and> r_id r' \<le> r_id r)"
  proof (intro ballI impI)
    fix r r' assume r: "r \<in> set rows" and r': "r' \<in> set (meter_readings s)"
      and c: "r_meter_id r' = mid \<and> r' \<notin> set rows"
    then have "r' \<in> set (latest_first F)"
      by (simp add: F_def)
    from take_top [OF sortedF r [unfolded rows_def] this] c
    show "r_timestamp r' < r_timestamp r \<or> (r_timestamp r' = r_timestamp r \<and> r_id r' \<le> r_id r)"
      by (simp add: rows_def)
  qed
  have ldata: "length data \<le> nat ?lim"
    by (simp add: data_def)
  have "sorted_wrt (\<lambda>a b. a \<ge> b) (map r_timestamp rows)"
    using srt by (auto simp: sorted_wrt_map elim: sorted_wrt_mono_rel [rotated])
  then have sks: "sorted_wrt (\<lambda>a b. a > b) ks"
    unfolding ks_def by (rule sorted_desc_first_seen_keys)
  then have "sorted_wrt (\<lambda>a b. s_timestamp b < s_timestamp a) (map (group_sample rows) ks)"
    by (simp add: sorted_wrt_map)
  then have sdata: "sorted_wrt (\<lambda>a b. s_timestamp b < s_timestamp a) data"
    by (simp add: data_def)
  have grp: "\<forall>smp\<in>set data. \<exists>r g.
          filter (\<lambda>r. r_timestamp r = s_timestamp smp) rows = r # g
          \<and> s_sequence_number smp = r_sequence_number r
          \<and> s_readings smp = map view_of (r # g)"
  proof
    fix smp assume "smp \<in> set data"
    then have "smp \<in> set (map (group_sample rows) ks)"
      unfolding data_def by (rule in_set_takeD)
    then obtain t where t: "t \<in> set ks" and smp: "smp = group_sample rows t"
      by auto
    from t have "t \<in> r_timestamp ` set rows"
      by (simp add: ks_def)
    from group_sample_member [OF this] show "\<exists>r g.
          filter (\<lambda>r. r_timestamp r = s_timestamp smp) rows = r # g
          \<and> s_sequence_number smp = r_sequence_number r
          \<and> s_readings smp = map view_of (r # g)"
      by (simp add: smp)
  qed
  have ts_data: "map s_timestamp data = take (nat ?lim) ks"
    by (simp add: data_def take_map o_def)
  have cover: "\<forall>r\<in>set rows. r_timestamp r \<in> s_timestamp ` set data
          \<or> (length data = nat ?lim \<and> (\<forall>smp\<in>set data. r_timestamp r < s_timestamp smp))"
  proof
    fix r assume "r \<in> set rows"
    then have mem: "r_timestamp r \<in> set ks"
      by (simp add: ks_def)
    show "r_timestamp r \<in> s_timestamp ` set data
          \<or> (length data = nat ?lim \<and> (\<forall>smp\<in>set data. r_timestamp r < s_timestamp smp))"
    proof (cases "r_timestamp r \<in> set (take (nat ?lim) ks)")
      case True
      then have "r_timestamp r \<in> set (map s_timestamp data)"
        by (simp add: ts_data)
      then show ?thesis by simp
    next
      case False
      have above: "\<forall>t\<in>set (take (nat ?lim) ks). r_timestamp r < t"
        using take_top [OF sks _ mem False] by blast
      have "nat ?lim < length ks"
      proof (rule ccontr)
        assume "\<not> nat ?lim < length ks"
        then have "take (nat ?lim) ks = ks" by simp
        with False mem show False by simp
      qed
      then have "length data = nat ?lim"
        by (simp add: data_def)
      moreover have "\<forall>smp\<in>set data. r_timestamp r < s_timestamp smp"
      proof
        fix smp assume "smp \<in> set data"
        then have "s_timestamp smp \<in> set (map s_timestamp data)"
          by simp
        then show "r_timestamp r < s_timestamp smp"
          using above by (simp add: ts_data)
      qed
      ultimately show ?thesis by blast
    qed
  qed
  from q g len sub srt top ldata sdata grp cover show ?thesis
    by blast
qed

theorem latest_samples_witness:
  "get_latest ''M1'' (Some 1) store_day1_day2 =
    (Success [\<lparr>s_timestamp = 1704153600000, s_sequence_number = Some 2,
               s_readings = [view_100]\<rparr>], store_day1_day2)"
  using latest_samples [of store_day1_day2 "Some 1" "''M1''"]
  by (simp add: query_defs example_defs)

section \<open>Ingestion followed by the query\<close>

text \<open>
  Claim C1, as amended. Let a sample with at least one and at most 10 readings be
  ingested with success, into a store whose ids lie below the counter and in which no
  row of that meter has a later timestamp than the sample; \<open>k\<close> and \<open>t\<close> are the meter id
  and the timestamp as the store holds them. Then the latest-samples query for \<open>k\<close> with
  sample count 1 answers with exactly one sample: its timestamp is \<open>t\<close>, its sequence
  number is that of the ingested sample, and its readings start with all the ingested
  readings, the last one first.
\<close>

theorem round_trip:
  assumes "ids_below s"
    and "post_meter_readings E now p s = (Success n, s')"
    and "readings p = Some (JArr rs)" and "1 \<le> length rs" and "length rs \<le> 10"
    and "not_null (bind_col (as_varchar E 50) (meter_id p)) = Some k"
    and "not_null (bind_col (as_datetime E) (timestamp p)) = Some t"
    and "\<forall>r\<in>set (meter_readings s). r_meter_id r = k \<longrightarrow> r_timestamp r \<le> t"
    and "latest_limit q = 1"
  shows "\<exists>smp vs. get_latest k q s' = (Success [smp], s')
        \<and> s_timestamp smp = t
        \<and> bind_col (as_int E) (sequence p) = Some (s_sequence_number smp)
        \<and> map (stored_view E) rs = map Some vs
        \<and> take (length rs) (s_readings smp) = rev vs"
proof -
  from assms(2) obtain s1 where reach: "reachable s"
    and up: "upsert_meter E now (meter_id p) (location p)
           (json_stringify E (device_info_or_empty (device_info p))) s = Inr s1"
    and ins: "insert_readings E now (meter_id p) (timestamp p) (sequence p) rs s1 = (s', None)"
    by (rule post_Success) (simp add: assms(3))
  from up obtain k' l d where s1: "s1 = s\<lparr>meters := upsert_row now k' l d (meters s)\<rparr>"
    by (rule upsert_meter_Inr)
  from insert_readings_ok [OF ins assms(6,7)] obtain new where
    tab: "meter_readings s' = meter_readings s @ new"
    and nids: "map r_id new = [next_reading_id s ..< next_reading_id s + length rs]"
    and reach': "reachable s'"
    and each: "\<forall>row\<in>set new. r_meter_id row = k \<and> r_timestamp row = t
             \<and> bind_col (as_int E) (sequence p) = Some (r_sequence_number row)"
    and views: "map (stored_view E) rs = map (Some \<circ> view_of) new"
    using reach by (auto simp: s1)
  have len: "length new = length rs"
    using nids by (metis length_map length_upt add_diff_cancel_left')
  define old where "old = filter (\<lambda>r. r_meter_id r = k) (meter_readings s)"
  have F: "filter (\<lambda>r. r_meter_id r = k) (meter_readings s') = old @ new"
    using each by (simp add: tab old_def)
  have oldp: "\<forall>r\<in>set old. r_timestamp r \<le> t \<and> r_id r < next_reading_id s"
    using assms(1,8) by (auto simp: old_def ids_below_def)
  have lf: "latest_first (old @ new) = rev new @ latest_first old"
    by (rule latest_first_append_new [where t = t and n = "next_reading_id s"])
       (use each nids len oldp in auto)
  define rows where "rows = rev new @ take (10 - length new) (latest_first old)"
  have q: "query_latest s' k (latest_limit q * 10) = Inr rows"
    using reach' assms(5) len by (simp add: query_latest_def F lf rows_def assms(9))
  obtain r0 rest where new_rev: "rev new = r0 # rest"
    using assms(4) len by (cases "rev new") auto
  then have r0: "r0 \<in> set new"
    by (metis list.set_intros(1) set_rev)
  have t0: "r_timestamp r0 = t"
    using each r0 by simp
  obtain ks where ks: "first_seen_keys (map r_timestamp rows) = t # ks"
    by (simp add: rows_def new_rev first_seen_keys_Cons t0)
  define smp where "smp = group_sample rows t"
  have g: "get_latest k q s' = (Success [smp], s')"
    using q by (simp add: get_latest_def assms(9) slice0_def group_by_timestamp_eq ks smp_def)
  have flt: "filter (\<lambda>r. r_timestamp r = t) rows
               = rev new @ filter (\<lambda>r. r_timestamp r = t) (take (10 - length new) (latest_first old))"
    using each by (simp add: rows_def)
  have seq: "s_sequence_number smp = r_sequence_number r0"
    and rd: "s_readings smp
               = map view_of (rev new) @ map view_of (filter (\<lambda>r. r_timestamp r = t)
                     (take (10 - length new) (latest_first old)))"
    by (simp_all add: smp_def group_sample_def flt new_rev)
  have "bind_col (as_int E) (sequence p) = Some (s_sequence_number smp)"
    using each r0 seq by simp
  moreover have "map (stored_view E) rs = map Some (map view_of new)"
    using views by simp
  moreover have "take (length rs) (s_readings smp) = rev (map view_of new)"
    using len by (simp add: rd rev_map)
  moreover have "s_timestamp smp = t"
    by (simp add: smp_def)
  ultimately show ?thesis
    using g by blast
qed

theorem round_trip_witness:
  "get_latest ''M1'' None store_day1_day2 =
    (Success [\<lparr>s_timestamp = 1704153600000, s_sequence_number = Some 2,
               s_readings = [view_100]\<rparr>], store_day1_day2)"
  using round_trip [of store_day1 example_platform 1704153600000 sample_day2 1 store_day1_day2
      "[reading_100]" "''M1''" 1704153600000 None]
  by (simp add: post_defs example_defs store_defs ids_below_def query_defs)

text \<open>
  The claim as stated fails when the sample arrives late. The store holds the sample
  stamped the second of January; the sample stamped the first is ingested with success
  on the third; the query with sample count 1 then answers with the sample of the second
  of January, which is neither stamped the first nor holds the reading just ingested
  (its sequence number is 2, the ingested one is 1). It fails as well for a sample without
  readings: ingested into the empty store with success, it leaves the query with no
  sample to answer with.
\<close>

theorem round_trip_counterexample:
  "post_meter_readings example_platform 1704240000000 sample_day1 store_day2
     = (Success 1, store_day2_day1)
   \<and> as_datetime example_platform (JStr ''2024-01-01 00:00:00'') = Some 1704067200000
   \<and> get_latest ''M1'' (Some 1) store_day2_day1 =
       (Success [\<lparr>s_timestamp = 1704153600000, s_sequence_number = Some 2,
                  s_readings = [view_100]\<rparr>], store_day2_day1)
   \<and> (1704153600000 :: int) \<noteq> 1704067200000
   \<and> fst (post_meter_readings example_platform 1704067200000
            (sample_day1\<lparr>readings := Some (JArr [])\<rparr>) empty_store) = Success 0
   \<and> fst (get_latest ''M1'' (Some 1)
            (snd (post_meter_readings example_platform 1704067200000
                    (sample_day1\<lparr>readings := Some (JArr [])\<rparr>) empty_store))) = Success []"
  by (simp add: post_defs example_defs store_defs query_defs)

section \<open>Daily aggregate\<close>

lemma d_date_daily_group [simp]: "d_date (daily_group rows d) = d"
  by (simp add: daily_group_def)

lemma avg_None_iff: "avg xs = None \<longleftrightarrow> xs = []"
  by (simp add: avg_def)

text \<open>
  Claim C9, as amended. The daily aggregate is taken over the rows whose timestamp is
  not older than 7 days (604800000 ms) before the evaluation time; there is no upper
  bound, a row stamped later than the evaluation time is included. It has one entry for
  each calendar date of such a row, with the number of these rows of that date and the
  average of \<^verbatim>\<open>value\<close> over those of them with the active-power code; the average is
  absent exactly when the date has no such row with that code; the entries are in
  strictly descending order of date.
\<close>

theorem daily_aggregate:
  "(\<forall>d\<in>set (query_daily now s).
       (\<exists>r\<in>set (meter_readings s).
           date_of (r_timestamp r) = d_date d \<and> now - 7 * 86400000 \<le> r_timestamp r)
     \<and> d_reading_count d =
         length (filter (\<lambda>r. now - 7 * 86400000 \<le> r_timestamp r
                             \<and> date_of (r_timestamp r) = d_date d) (meter_readings s))
     \<and> d_avg_power d =
         avg (map r_value (filter (\<lambda>r. now - 7 * 86400000 \<le> r_timestamp r
                             \<and> date_of (r_timestamp r) = d_date d
                             \<and> r_obis_code r = ''1.0.1.7.0.255'') (meter_readings s)))
     \<and> (d_avg_power d = None \<longleftrightarrow>
         \<not> (\<exists>r\<in>set (meter_readings s). now - 7 * 86400000 \<le> r_timestamp r
                \<and> date_of (r_timestamp r) = d_date d \<and> r_obis_code r = ''1.0.1.7.0.255'')))
   \<and> (\<forall>r\<in>set (meter_readings s). now - 7 * 86400000 \<le> r_timestamp r \<longrightarrow>
          date_of (r_timestamp r) \<in> d_date ` set (query_daily now s))
   \<and> sorted_wrt (\<lambda>a b. d_date b < d_date a) (query_daily now s)"
proof -
  define rows where "rows = filter (in_window now) (meter_readings s)"
  define dates where "dates = rev (sort (remdups (map (\<lambda>r. date_of (r_timestamp r)) rows)))"
  have qd: "query_daily now s = map (daily_group rows) dates"
    by (simp add: query_daily_def rows_def dates_def Let_def)
  have win: "in_window now r \<longleftrightarrow> now - 7 * 86400000 \<le> r_timestamp r" for r
    by (simp add: in_window_def seven_days_def)
  have set_dates: "set dates = (\<lambda>r. date_of (r_timestamp r)) ` set rows"
    by (simp add: dates_def)
  have rows_filter: "filter P rows
         = filter (\<lambda>r. now - 7 * 86400000 \<le> r_timestamp r \<and> P r) (meter_readings s)" for P
    by (simp add: rows_def win)
  have per_date: "(\<exists>r\<in>set (meter_readings s).
           date_of (r_timestamp r) = d_date d \<and> now - 7 * 86400000 \<le> r_timestamp r)
     \<and> d_reading_count d =
         length (filter (\<lambda>r. now - 7 * 86400000 \<le> r_timestamp r
                             \<and> date_of (r_timestamp r) = d_date d) (meter_readings s))
     \<and> d_avg_power d =
         avg (map r_value (filter (\<lambda>r. now - 7 * 86400000 \<le> r_timestamp r
                             \<and> date_of (r_timestamp r) = d_date d
                             \<and> r_obis_code r = ''1.0.1.7.0.255'') (meter_readings s)))
     \<and> (d_avg_power d = None \<longleftrightarrow>
         \<not> (\<exists>r\<in>set (meter_readings s). now - 7 * 86400000 \<le> r_timestamp r
                \<and> date_of (r_timestamp r) = d_date d \<and> r_obis_code r = ''1.0.1.7.0.255''))"
    if "d \<in> set (query_daily now s)" for d
  proof -
    from that obtain x where x: "x \<in> set dates" and d: "d = daily_group rows x"
      by (auto simp: qd)
    from x obtain r where "r \<in> set rows" "date_of (r_timestamp r) = x"
      by (auto simp: set_dates)
    then have 1: "\<exists>r\<in>set (meter_readings s).
           date_of (r_timestamp r) = d_date d \<and> now - 7 * 86400000 \<le> r_timestamp r"
      by (auto simp: d rows_def win)
    have 2: "d_reading_count d =
         length (filter (\<lambda>r. now - 7 * 86400000 \<le> r_timestamp r
                             \<and> date_of (r_timestamp r) = d_date d) (meter_readings s))"
      by (simp add: d daily_group_def rows_filter)
    have 3: "d_avg_power d =
         avg (map r_value (filter (\<lambda>r. now - 7 * 86400000 \<le> r_timestamp r
                             \<and> date_of (r_timestamp r) = d_date d
                             \<and> r_obis_code r = ''1.0.1.7.0.255'') (meter_readings s)))"
      by (simp add: d daily_group_def rows_filter conj_commute conj_left_commute)
    have 4: "d_avg_power d = None \<longleftrightarrow>
         \<not> (\<exists>r\<in>set (meter_readings s). now - 7 * 86400000 \<le> r_timestamp r
                \<and> date_of (r_timestamp r) = d_date d \<and> r_obis_code r = ''1.0.1.7.0.255'')"
      unfolding 3 avg_None_iff by (auto simp: filter_empty_conv)
    from 1 2 3 4 show ?thesis by blast
  qed
  have cover: "\<forall>r\<in>set (meter_readings s). now - 7 * 86400000 \<le> r_timestamp r \<longrightarrow>
          date_of (r_timestamp r) \<in> d_date ` set (query_daily now s)"
  proof (intro ballI impI)
    fix r assume "r \<in> set (meter_readings s)" "now - 7 * 86400000 \<le> r_timestamp r"
    then have "r \<in> set rows"
      by (simp add: rows_def win)
    then have "date_of (r_timestamp r) \<in> set dates"
      by (simp add: set_dates)
    then have "daily_group rows (date_of (r_timestamp r)) \<in> set (query_daily now s)"
      by (simp add: qd)
    then show "date_of (r_timestamp r) \<in> d_date ` set (query_daily now s)"
      by (metis d_date_daily_group imageI)
  qed
  have "sorted_wrt (<) (sort (remdups (map (\<lambda>r. date_of (r_timestamp r)) rows)))"
    by (simp add: strict_sorted_iff)
  then have "sorted_wrt (\<lambda>a b. b < a) dates"
    by (simp add: dates_def sorted_wrt_rev)
  then have ord: "sorted_wrt (\<lambda>a b. d_date b < d_date a) (query_daily now s)"
    by (simp add: qd sorted_wrt_map)
  from per_date cover ord show ?thesis
    by blast
qed

theorem daily_aggregate_witness:
  "query_daily 1704153600000 store_day1_day2 =
     [\<lparr>d_date = 19724, d_reading_count = 1, d_avg_power = Some 100\<rparr>,
      \<lparr>d_date = 19723, d_reading_count = 1, d_avg_power = Some 100\<rparr>]"
  using daily_aggregate [of 1704153600000 store_day1_day2]
  by (simp add: daily_defs example_defs)

text \<open>
  The claim as stated fails for a row stamped in the future. The sample stamped the
  second of January is ingested on the first; one hour later (1704070800000) the
  aggregate counts its row, under the second of January, although the timestamp of the
  row does not lie in the 7 days that end at the evaluation time.
\<close>

theorem daily_future_row_counterexample:
  "post_meter_readings example_platform 1704067200000 sample_day2 empty_store
     = (Success 1, store_ahead)
   \<and> map r_timestamp (meter_readings store_ahead) = [1704153600000]
   \<and> query_daily 1704070800000 store_ahead =
       [\<lparr>d_date = 19724, d_reading_count = 1, d_avg_power = Some 100\<rparr>]
   \<and> \<not> (1704153600000 \<le> (1704070800000 :: int))"
  by (simp add: post_defs example_defs store_defs daily_defs)

text \<open>The handler of the dashboard passes the aggregate on and leaves the store as it was.\<close>

lemma get_dashboard_daily:
  "get_dashboard now s = (Success d, s') \<Longrightarrow> daily d = query_daily now s \<and> s' = s"
  by (auto simp: get_dashboard_def Let_def split: if_splits sum.splits)

end
